theory Spec2Isabelle
  imports Complex_Main "HOL-Library.Word"
begin

unbundle bit_operations_syntax

section \<open>JavaScript values and operators used by the transpose routines\<close>

text \<open>
  The routines of \<^verbatim>\<open>src/src/index.ts\<close> compute on JavaScript numbers. Widths, heights,
  loop counters and indices are modelled as \<^typ>\<open>int\<close> (the integer-valued numbers; fractional
  and non-finite numbers are outside the model). Additions, multiplications and comparisons
  are the mathematical ones, as they are on numbers below \<open>2\<^sup>5\<^sup>3\<close>. The bitwise operators \<^verbatim>\<open>>>\<close>, \<^verbatim>\<open><<\<close>, \<^verbatim>\<open>&\<close> and \<^verbatim>\<open>|\<close> first
  convert their operands to signed 32-bit integers, and that conversion is written out.
\<close>

definition to_int32 :: "int \<Rightarrow> int" where
  "to_int32 n = signed_take_bit 31 n"

text \<open>\<^verbatim>\<open>a >> k\<close>: sign-propagating shift of the 32-bit value; only the low five bits of \<open>k\<close> count.\<close>

definition js_shr :: "int \<Rightarrow> int \<Rightarrow> int" where
  "js_shr a k = drop_bit (nat (take_bit 5 k)) (to_int32 a)"

text \<open>\<^verbatim>\<open>a << k\<close>: left shift, the result again a signed 32-bit value.\<close>

definition js_shl :: "int \<Rightarrow> int \<Rightarrow> int" where
  "js_shl a k = to_int32 (push_bit (nat (take_bit 5 k)) (to_int32 a))"

definition js_and :: "int \<Rightarrow> int \<Rightarrow> int" where
  "js_and a b = to_int32 a AND to_int32 b"

definition js_or :: "int \<Rightarrow> int \<Rightarrow> int" where
  "js_or a b = to_int32 a OR to_int32 b"

text \<open>\<^verbatim>\<open>a % b\<close>: the remainder has the sign of the dividend.\<close>

definition js_rem :: "int \<Rightarrow> int \<Rightarrow> int" where
  "js_rem a b = sgn a * (\<bar>a\<bar> mod \<bar>b\<bar>)"

text \<open>\<^verbatim>\<open>Math.ceil(a / 8)\<close> for an integer \<open>a\<close>.\<close>

definition ceil_div8 :: "int \<Rightarrow> int" where
  "ceil_div8 a = - ((- a) div 8)"

subsection \<open>Values of any type\<close>

text \<open>
  The declared type of \<^verbatim>\<open>options.bpp\<close> is \<^verbatim>\<open>1 | 8\<close>, but the compiled code receives whatever
  the caller passes, and \<^verbatim>\<open>options.bpp || 1\<close> and \<^verbatim>\<open>bpp === 1\<close> are defined on every value.
  A finite number is a real (\<open>-0\<close> is \<open>0\<close>: the two are equal under \<^verbatim>\<open>===\<close> and both falsy); an
  object or function is \<open>JsObject\<close> (symbols, which the error message cannot print, are
  outside the model). The falsy values are \<^verbatim>\<open>undefined\<close>, \<^verbatim>\<open>null\<close>,
  \<^verbatim>\<open>false\<close>, \<open>0\<close>, \<^verbatim>\<open>NaN\<close>, the empty string and \<^verbatim>\<open>0n\<close>.
\<close>

datatype js_value =
    JsUndefined
  | JsNull
  | JsBoolean bool
  | JsNumber real
  | JsNaN
  | JsInfinity
  | JsNegInfinity
  | JsString string
  | JsBigInt int
  | JsObject

fun truthy :: "js_value \<Rightarrow> bool" where
  "truthy JsUndefined = False"
| "truthy JsNull = False"
| "truthy (JsBoolean b) = b"
| "truthy (JsNumber r) = (r \<noteq> 0)"
| "truthy JsNaN = False"
| "truthy JsInfinity = True"
| "truthy JsNegInfinity = True"
| "truthy (JsString s) = (s \<noteq> [])"
| "truthy (JsBigInt n) = (n \<noteq> 0)"
| "truthy JsObject = True"

subsection \<open>Buffers\<close>

text \<open>
  A \<^verbatim>\<open>Buffer\<close> or \<^verbatim>\<open>Uint8Array\<close> is a list of bytes. \<^verbatim>\<open>Buffer.alloc(size)\<close> returns a
  zero-filled buffer when \<open>0 \<le> size \<le> MAX_LENGTH\<close> and throws a \<^verbatim>\<open>RangeError\<close> otherwise.
  \<open>MAX_LENGTH\<close> is \<^verbatim>\<open>buffer.constants.MAX_LENGTH\<close> of Node.js, \<open>2\<^sup>5\<^sup>3 - 1\<close> on current 64-bit
  releases (the bound the error message prints); earlier releases have a smaller one. The
  general results below use it only as a bound on sizes. No buffer is longer than
  \<open>MAX_LENGTH\<close>, so a result about an input buffer assumes that of its length. Running out of
  memory below that limit is not modelled.
  Reading an element outside the buffer yields \<^verbatim>\<open>undefined\<close> (\<open>None\<close>); writing outside the
  buffer is ignored, as typed arrays do. A stored number is reduced modulo 256.
\<close>

type_synonym byte = "8 word"
type_synonym buffer = "byte list"

datatype error = RangeError | UnsupportedBpp js_value

definition MAX_LENGTH :: int where
  "MAX_LENGTH = 2 ^ 53 - 1"

definition buf_alloc :: "int \<Rightarrow> error + buffer" where
  "buf_alloc n =
     (if n < 0 \<or> MAX_LENGTH < n then Inl RangeError else Inr (replicate (nat n) 0))"

definition buf_get :: "buffer \<Rightarrow> int \<Rightarrow> int option" where
  "buf_get b i = (if 0 \<le> i \<and> i < int (length b) then Some (uint (b ! nat i)) else None)"

definition buf_set :: "buffer \<Rightarrow> int \<Rightarrow> int \<Rightarrow> buffer" where
  "buf_set b i v = (if 0 \<le> i \<and> i < int (length b) then b[nat i := word_of_int v] else b)"

text \<open>
  Where a possibly \<^verbatim>\<open>undefined\<close> element is used as a number (operand of \<^verbatim>\<open>>>\<close> or \<^verbatim>\<open>|\<close>,
  or stored into a byte), \<^verbatim>\<open>undefined\<close> becomes \<^verbatim>\<open>NaN\<close> and then 0.
\<close>

definition undefined_to_0 :: "int option \<Rightarrow> int" where
  "undefined_to_0 v = (case v of None \<Rightarrow> 0 | Some n \<Rightarrow> n)"

subsection \<open>Counting loops\<close>

text \<open>\<^verbatim>\<open>for (let i = i0; i < n; i++) body\<close>, the loop's effect on the state it updates.\<close>

function for_loop :: "int \<Rightarrow> int \<Rightarrow> (int \<Rightarrow> 's \<Rightarrow> 's) \<Rightarrow> 's \<Rightarrow> 's" where
  "for_loop i n body s = (if i < n then for_loop (i + 1) n body (body i s) else s)"
  by pat_completeness auto
termination
  by (relation "measure (\<lambda>(i, n, body, s). nat (n - i))") auto

declare for_loop.simps [simp del]

section \<open>The transpose routines\<close>

text \<open>
  \<^verbatim>\<open>src/src/index.ts\<close> holds two revisions of the module. The routines below follow the later
  one, which has the \<^verbatim>\<open>packed\<close> option; the three routines the earlier revision has are the same
  in both.
\<close>

subsection \<open>\<^verbatim>\<open>transpose1BitAligned\<close>\<close>

definition aligned_body :: "buffer \<Rightarrow> int \<Rightarrow> int \<Rightarrow> int \<Rightarrow> int \<Rightarrow> buffer \<Rightarrow> buffer" where
  "aligned_body input widthBytes heightBytes x y output =
     (let inputByteCol = js_shr x 3;
          inputBitShift = 7 - js_and x 7;
          inputIndex = y * widthBytes + inputByteCol;
          bit' = js_and (js_shr (undefined_to_0 (buf_get input inputIndex)) inputBitShift) 1
      in if bit' \<noteq> 0 then
           (let outputRowStart = x * heightBytes;
                outputByteIndex = outputRowStart + js_shr y 3;
                outputBitShift = 7 - js_and y 7
            in buf_set output outputByteIndex
                 (js_or (undefined_to_0 (buf_get output outputByteIndex)) (js_shl 1 outputBitShift)))
         else output)"

definition transpose1BitAligned :: "buffer \<Rightarrow> int \<Rightarrow> int \<Rightarrow> error + buffer" where
  "transpose1BitAligned input width height =
     (let widthBytes = js_shr width 3;
          heightBytes = js_shr height 3
      in case buf_alloc (width * heightBytes) of
           Inl e \<Rightarrow> Inl e
         | Inr output \<Rightarrow>
             Inr (for_loop 0 width
                    (\<lambda>x. for_loop 0 height (aligned_body input widthBytes heightBytes x))
                    output))"

subsection \<open>\<^verbatim>\<open>transpose1BitGeneric\<close>\<close>

definition generic_body :: "buffer \<Rightarrow> int \<Rightarrow> int \<Rightarrow> int \<Rightarrow> int \<Rightarrow> buffer \<Rightarrow> buffer" where
  "generic_body input inputStride outputStride x y output =
     (let inputByteCol = js_shr x 3;
          inputBitShift = 7 - js_and x 7;
          inputIndex = y * inputStride + inputByteCol
      in if inputIndex < int (length input) then
           (let bit' = js_and (js_shr (undefined_to_0 (buf_get input inputIndex)) inputBitShift) 1
            in if bit' \<noteq> 0 then
                 (let outputRowStart = x * outputStride;
                      outputByteIndex = outputRowStart + js_shr y 3;
                      outputBitShift = 7 - js_and y 7
                  in buf_set output outputByteIndex
                       (js_or (undefined_to_0 (buf_get output outputByteIndex))
                          (js_shl 1 outputBitShift)))
               else output)
         else output)"

definition transpose1BitGeneric :: "buffer \<Rightarrow> int \<Rightarrow> int \<Rightarrow> error + buffer" where
  "transpose1BitGeneric input width height =
     (let inputStride = ceil_div8 width;
          outputStride = ceil_div8 height
      in case buf_alloc (width * outputStride) of
           Inl e \<Rightarrow> Inl e
         | Inr output \<Rightarrow>
             Inr (for_loop 0 width
                    (\<lambda>x. for_loop 0 height (generic_body input inputStride outputStride x))
                    output))"

subsection \<open>\<^verbatim>\<open>transpose1BitPacked\<close>\<close>

text \<open>The loops update the output buffer and the running cursor \<^verbatim>\<open>outputBitIndex\<close>.\<close>

definition packed_body :: "buffer \<Rightarrow> int \<Rightarrow> int \<Rightarrow> int \<Rightarrow> buffer \<times> int \<Rightarrow> buffer \<times> int" where
  "packed_body input inputStride x y st =
     (let output = fst st;
          outputBitIndex = snd st;
          inputByteCol = js_shr x 3;
          inputBitShift = 7 - js_and x 7;
          inputIndex = y * inputStride + inputByteCol;
          output' =
            (if inputIndex < int (length input) then
               (let bit' = js_and (js_shr (undefined_to_0 (buf_get input inputIndex)) inputBitShift) 1
                in if bit' \<noteq> 0 then
                     (let outputByteIdx = js_shr outputBitIndex 3;
                          outputBitOff = 7 - js_and outputBitIndex 7
                      in buf_set output outputByteIdx
                           (js_or (undefined_to_0 (buf_get output outputByteIdx))
                              (js_shl 1 outputBitOff)))
                   else output)
             else output)
      in (output', outputBitIndex + 1))"

definition transpose1BitPacked :: "buffer \<Rightarrow> int \<Rightarrow> int \<Rightarrow> error + buffer" where
  "transpose1BitPacked input width height =
     (let inputStride = ceil_div8 width;
          totalOutputBits = width * height;
          outputSizeBytes = ceil_div8 totalOutputBits
      in case buf_alloc outputSizeBytes of
           Inl e \<Rightarrow> Inl e
         | Inr output \<Rightarrow>
             Inr (fst (for_loop 0 width
                         (\<lambda>x. for_loop 0 height (packed_body input inputStride x))
                         (output, 0))))"

subsection \<open>\<^verbatim>\<open>transpose8Bit\<close>\<close>

definition byte_body :: "buffer \<Rightarrow> int \<Rightarrow> int \<Rightarrow> int \<Rightarrow> int \<Rightarrow> buffer \<Rightarrow> buffer" where
  "byte_body input width height x y output =
     (let inputIndex = y * width + x;
          outputIndex = x * height + y
      in buf_set output outputIndex (undefined_to_0 (buf_get input inputIndex)))"

definition transpose8Bit :: "buffer \<Rightarrow> int \<Rightarrow> int \<Rightarrow> error + buffer" where
  "transpose8Bit input width height =
     (case buf_alloc (width * height) of
        Inl e \<Rightarrow> Inl e
      | Inr output \<Rightarrow>
          Inr (for_loop 0 width (\<lambda>x. for_loop 0 height (byte_body input width height x))
                 output))"

subsection \<open>The dispatcher \<^verbatim>\<open>transpose\<close>\<close>

text \<open>
  The exported function \<^verbatim>\<open>transpose\<close> is named \<open>buffer_transpose\<close> here, after the package,
  since the list library has a \<open>transpose\<close> of its own.
  \<^verbatim>\<open>TransposeOptions\<close>: both fields are optional. An omitted \<^verbatim>\<open>bpp\<close> reads as
  \<^verbatim>\<open>undefined\<close> (\<open>JsUndefined\<close>), an omitted \<^verbatim>\<open>packed\<close> is \<open>None\<close>.
  \<^verbatim>\<open>options.bpp || 1\<close> replaces every falsy value by 1, and \<^verbatim>\<open>options.packed || false\<close>
  replaces \<^verbatim>\<open>undefined\<close> by \<^verbatim>\<open>false\<close>. \<^verbatim>\<open>bpp === 1\<close> holds of the number 1 alone.
\<close>

record TransposeOptions =
  bpp :: js_value
  packed :: "bool option"

definition bpp_or_1 :: "js_value \<Rightarrow> js_value" where
  "bpp_or_1 v = (if truthy v then v else JsNumber 1)"

definition packed_or_false :: "bool option \<Rightarrow> bool" where
  "packed_or_false v = (case v of None \<Rightarrow> False | Some p \<Rightarrow> p)"

definition buffer_transpose :: "buffer \<Rightarrow> int \<Rightarrow> int \<Rightarrow> TransposeOptions \<Rightarrow> error + buffer" where
  "buffer_transpose input width height options =
     (let bpp' = bpp_or_1 (bpp options);
          packed' = packed_or_false (packed options)
      in if bpp' = JsNumber 1 then
           (if packed' then transpose1BitPacked input width height
            else if js_rem width 8 = 0 \<and> js_rem height 8 = 0
              then transpose1BitAligned input width height
            else transpose1BitGeneric input width height)
         else if bpp' = JsNumber 8 then transpose8Bit input width height
         else Inl (UnsupportedBpp bpp'))"

section \<open>Observing single bits\<close>

text \<open>
  The bit of a 1-bit matrix at a row and column, for a row stride in bytes, most significant
  bit first within a byte: the addressing that \<^verbatim>\<open>src/test.js\<close> uses to read a transposed
  bit back (\<^verbatim>\<open>x * outputStride + (y >> 3)\<close>, \<^verbatim>\<open>7 - (y & 7)\<close>), on mathematical integers.
  A position outside the buffer holds no set bit.
\<close>

definition bit_at :: "buffer \<Rightarrow> int \<Rightarrow> int \<Rightarrow> int \<Rightarrow> bool" where
  "bit_at buf stride row col \<longleftrightarrow>
     (let i = row * stride + col div 8
      in 0 \<le> i \<and> i < int (length buf) \<and> bit (buf ! nat i) (nat (7 - col mod 8)))"

text \<open>
  The test \<^verbatim>\<open>if (bit)\<close> of the three 1-bit routines, for the input byte index and the
  column \<open>x\<close> the routine computed.
\<close>

definition src_bit :: "buffer \<Rightarrow> int \<Rightarrow> int \<Rightarrow> bool" where
  "src_bit input inputIndex x \<longleftrightarrow>
     js_and (js_shr (undefined_to_0 (buf_get input inputIndex)) (7 - js_and x 7)) 1 \<noteq> 0"

text \<open>
  A buffer that has byte \<open>i\<close>, in which bit \<open>k\<close> of that byte is set and no other bit of any
  byte is.
\<close>

definition only_bit :: "buffer \<Rightarrow> int \<Rightarrow> nat \<Rightarrow> bool" where
  "only_bit buf i k \<longleftrightarrow>
     0 \<le> i \<and> i < int (length buf) \<and> k < 8 \<and>
     (\<forall>j<length buf. \<forall>b<8. bit (buf ! j) b = (int j = i \<and> b = k))"


section \<open>The routines on a store of buffers\<close>

text \<open>
  The definitions above pass buffers by value. To state which buffers a call touches, the
  same routines are written once more over a store: a buffer is a reference (an index) into
  the list of all allocated buffers, \<^verbatim>\<open>Buffer.alloc\<close> appends a zero-filled buffer and returns
  its reference, and every element read and write names the reference it goes through.
\<close>

type_synonym ref = nat
type_synonym store = "buffer list"

definition st_alloc :: "store \<Rightarrow> int \<Rightarrow> error + (ref \<times> store)" where
  "st_alloc h n =
     (if n < 0 \<or> MAX_LENGTH < n then Inl RangeError
      else Inr (length h, h @ [replicate (nat n) 0]))"

definition st_length :: "store \<Rightarrow> ref \<Rightarrow> int" where
  "st_length h r = int (length (h ! r))"

definition st_get :: "store \<Rightarrow> ref \<Rightarrow> int \<Rightarrow> int option" where
  "st_get h r i = buf_get (h ! r) i"

definition st_set :: "store \<Rightarrow> ref \<Rightarrow> int \<Rightarrow> int \<Rightarrow> store" where
  "st_set h r i v = h[r := buf_set (h ! r) i v]"

definition aligned_body_st :: "ref \<Rightarrow> int \<Rightarrow> int \<Rightarrow> ref \<Rightarrow> int \<Rightarrow> int \<Rightarrow> store \<Rightarrow> store" where
  "aligned_body_st input widthBytes heightBytes output x y h =
     (let inputByteCol = js_shr x 3;
          inputBitShift = 7 - js_and x 7;
          inputIndex = y * widthBytes + inputByteCol;
          bit' = js_and (js_shr (undefined_to_0 (st_get h input inputIndex)) inputBitShift) 1
      in if bit' \<noteq> 0 then
           (let outputRowStart = x * heightBytes;
                outputByteIndex = outputRowStart + js_shr y 3;
                outputBitShift = 7 - js_and y 7
            in st_set h output outputByteIndex
                 (js_or (undefined_to_0 (st_get h output outputByteIndex)) (js_shl 1 outputBitShift)))
         else h)"

definition transpose1BitAligned_st :: "store \<Rightarrow> ref \<Rightarrow> int \<Rightarrow> int \<Rightarrow> (error + ref) \<times> store" where
  "transpose1BitAligned_st h input width height =
     (let widthBytes = js_shr width 3;
          heightBytes = js_shr height 3
      in case st_alloc h (width * heightBytes) of
           Inl e \<Rightarrow> (Inl e, h)
         | Inr (output, h') \<Rightarrow>
             (Inr output,
              for_loop 0 width
                (\<lambda>x. for_loop 0 height (aligned_body_st input widthBytes heightBytes output x))
                h'))"

definition generic_body_st :: "ref \<Rightarrow> int \<Rightarrow> int \<Rightarrow> ref \<Rightarrow> int \<Rightarrow> int \<Rightarrow> store \<Rightarrow> store" where
  "generic_body_st input inputStride outputStride output x y h =
     (let inputByteCol = js_shr x 3;
          inputBitShift = 7 - js_and x 7;
          inputIndex = y * inputStride + inputByteCol
      in if inputIndex < st_length h input then
           (let bit' = js_and (js_shr (undefined_to_0 (st_get h input inputIndex)) inputBitShift) 1
            in if bit' \<noteq> 0 then
                 (let outputRowStart = x * outputStride;
                      outputByteIndex = outputRowStart + js_shr y 3;
                      outputBitShift = 7 - js_and y 7
                  in st_set h output outputByteIndex
                       (js_or (undefined_to_0 (st_get h output outputByteIndex))
                          (js_shl 1 outputBitShift)))
               else h)
         else h)"

definition transpose1BitGeneric_st :: "store \<Rightarrow> ref \<Rightarrow> int \<Rightarrow> int \<Rightarrow> (error + ref) \<times> store" where
  "transpose1BitGeneric_st h input width height =
     (let inputStride = ceil_div8 width;
          outputStride = ceil_div8 height
      in case st_alloc h (width * outputStride) of
           Inl e \<Rightarrow> (Inl e, h)
         | Inr (output, h') \<Rightarrow>
             (Inr output,
              for_loop 0 width
                (\<lambda>x. for_loop 0 height (generic_body_st input inputStride outputStride output x))
                h'))"

definition packed_body_st :: "ref \<Rightarrow> int \<Rightarrow> ref \<Rightarrow> int \<Rightarrow> int \<Rightarrow> store \<times> int \<Rightarrow> store \<times> int" where
  "packed_body_st input inputStride output x y st =
     (let h = fst st;
          outputBitIndex = snd st;
          inputByteCol = js_shr x 3;
          inputBitShift = 7 - js_and x 7;
          inputIndex = y * inputStride + inputByteCol;
          h' =
            (if inputIndex < st_length h input then
               (let bit' = js_and (js_shr (undefined_to_0 (st_get h input inputIndex)) inputBitShift) 1
                in if bit' \<noteq> 0 then
                     (let outputByteIdx = js_shr outputBitIndex 3;
                          outputBitOff = 7 - js_and outputBitIndex 7
                      in st_set h output outputByteIdx
                           (js_or (undefined_to_0 (st_get h output outputByteIdx))
                              (js_shl 1 outputBitOff)))
                   else h)
             else h)
      in (h', outputBitIndex + 1))"

definition transpose1BitPacked_st :: "store \<Rightarrow> ref \<Rightarrow> int \<Rightarrow> int \<Rightarrow> (error + ref) \<times> store" where
  "transpose1BitPacked_st h input width height =
     (let inputStride = ceil_div8 width;
          totalOutputBits = width * height;
          outputSizeBytes = ceil_div8 totalOutputBits
      in case st_alloc h outputSizeBytes of
           Inl e \<Rightarrow> (Inl e, h)
         | Inr (output, h') \<Rightarrow>
             (Inr output,
              fst (for_loop 0 width
                     (\<lambda>x. for_loop 0 height (packed_body_st input inputStride output x))
                     (h', 0))))"

definition byte_body_st :: "ref \<Rightarrow> int \<Rightarrow> int \<Rightarrow> ref \<Rightarrow> int \<Rightarrow> int \<Rightarrow> store \<Rightarrow> store" where
  "byte_body_st input width height output x y h =
     (let inputIndex = y * width + x;
          outputIndex = x * height + y
      in st_set h output outputIndex (undefined_to_0 (st_get h input inputIndex)))"

definition transpose8Bit_st :: "store \<Rightarrow> ref \<Rightarrow> int \<Rightarrow> int \<Rightarrow> (error + ref) \<times> store" where
  "transpose8Bit_st h input width height =
     (case st_alloc h (width * height) of
        Inl e \<Rightarrow> (Inl e, h)
      | Inr (output, h') \<Rightarrow>
          (Inr output,
           for_loop 0 width (\<lambda>x. for_loop 0 height (byte_body_st input width height output x))
             h'))"

definition buffer_transpose_st ::
  "store \<Rightarrow> ref \<Rightarrow> int \<Rightarrow> int \<Rightarrow> TransposeOptions \<Rightarrow> (error + ref) \<times> store" where
  "buffer_transpose_st h input width height options =
     (let bpp' = bpp_or_1 (bpp options);
          packed' = packed_or_false (packed options)
      in if bpp' = JsNumber 1 then
           (if packed' then transpose1BitPacked_st h input width height
            else if js_rem width 8 = 0 \<and> js_rem height 8 = 0
              then transpose1BitAligned_st h input width height
            else transpose1BitGeneric_st h input width height)
         else if bpp' = JsNumber 8 then transpose8Bit_st h input width height
         else (Inl (UnsupportedBpp bpp'), h))"

section \<open>Properties of the operators\<close>

lemma to_int32_id: "- (2 ^ 31) \<le> a \<Longrightarrow> a < 2 ^ 31 \<Longrightarrow> to_int32 a = a"
  unfolding to_int32_def by (rule signed_take_bit_int_eq_self)

lemma to_int32_nonneg: "0 \<le> a \<Longrightarrow> a < 2 ^ 31 \<Longrightarrow> to_int32 a = a"
  by (rule to_int32_id) simp_all


lemma js_shr3: "0 \<le> a \<Longrightarrow> a < 2 ^ 31 \<Longrightarrow> js_shr a 3 = a div 8"
  by (simp add: js_shr_def to_int32_id drop_bit_eq_div)


lemma js_and7: "js_and a 7 = a mod 8"
proof -
  have "js_and a 7 = take_bit 3 (signed_take_bit 31 a)"
    by (simp add: js_and_def to_int32_def take_bit_eq_mask mask_eq_exp_minus_1)
  also have "\<dots> = take_bit 3 a"
    by (simp add: take_bit_signed_take_bit)
  finally show ?thesis by (simp add: take_bit_eq_mod)
qed

lemma shift_amount: "0 \<le> s \<Longrightarrow> s \<le> 7 \<Longrightarrow> nat (take_bit 5 s) = nat s"
  by (simp add: take_bit_eq_mod)

lemma read_bit:
  fixes w :: byte
  assumes "0 \<le> s" "s \<le> 7"
  shows "js_and (js_shr (uint w) s) 1 \<noteq> 0 \<longleftrightarrow> bit w (nat s)"
proof -
  have u: "0 \<le> uint w" "uint w < 256"
    using uint_lt2p [of w] by simp_all
  have r: "to_int32 (uint w) = uint w"
    by (rule to_int32_nonneg) (use u in simp_all)
  have "0 \<le> drop_bit (nat s) (uint w)" by simp
  moreover have "drop_bit (nat s) (uint w) \<le> uint w"
    unfolding drop_bit_eq_div using zdiv_mono2 [of "uint w" 1 "2 ^ nat s"] by simp
  ultimately have d: "to_int32 (drop_bit (nat s) (uint w)) = drop_bit (nat s) (uint w)"
    using u by (intro to_int32_nonneg) simp_all
  have "js_and (js_shr (uint w) s) 1 = drop_bit (nat s) (uint w) AND 1"
    using assms by (simp add: js_and_def js_shr_def r d shift_amount to_int32_id)
  also have "\<dots> = of_bool (bit (uint w) (nat s))"
    by (simp add: and_one_eq bit_iff_odd_drop_bit mod_2_eq_odd)
  finally show ?thesis using assms by (auto simp add: bit_uint_iff)
qed

lemma write_bit:
  fixes w :: byte
  assumes "0 \<le> s" "s \<le> 7"
  shows "word_of_int (js_or (uint w) (js_shl 1 s)) = set_bit (nat s) w"
proof -
  have u: "0 \<le> uint w" "uint w < 256"
    using uint_lt2p [of w] by simp_all
  have r: "to_int32 (uint w) = uint w"
    by (rule to_int32_nonneg) (use u in simp_all)
  have "(2::int) ^ nat s \<le> 2 ^ 7"
    using assms by (intro power_increasing) simp_all
  then have p: "to_int32 (2 ^ nat s) = 2 ^ nat s"
    by (intro to_int32_nonneg) simp_all
  have "js_shl 1 s = 2 ^ nat s"
    using assms p by (simp add: js_shl_def shift_amount to_int32_id push_bit_eq_mult)
  then have "js_or (uint w) (js_shl 1 s) = uint w OR 2 ^ nat s"
    by (simp add: js_or_def r p)
  also have "word_of_int \<dots> = (w OR 2 ^ nat s)"
    by (simp flip: word_wi_log_defs(3))
  finally show ?thesis
    by (simp add: set_bit_def)
qed

lemma shift_range: "0 \<le> 7 - (a::int) mod 8 \<and> 7 - a mod 8 \<le> 7"
  using pos_mod_sign [of 8 a] pos_mod_bound [of 8 a] by simp

lemma src_bit_iff:
  "src_bit input i x \<longleftrightarrow>
     0 \<le> i \<and> i < int (length input) \<and> bit (input ! nat i) (nat (7 - x mod 8))"
proof (cases "0 \<le> i \<and> i < int (length input)")
  case True
  then show ?thesis
    using shift_range [of x]
    by (simp add: src_bit_def buf_get_def undefined_to_0_def js_and7 read_bit)
next
  case False
  have "js_and (js_shr 0 s) 1 = 0" for s
    by (simp add: js_and_def js_shr_def to_int32_def)
  with False show ?thesis
    by (auto simp add: src_bit_def buf_get_def undefined_to_0_def)
qed

section \<open>Properties of the loops\<close>

lemma for_loop_step: "i < n \<Longrightarrow> for_loop i n body s = for_loop (i + 1) n body (body i s)"
  by (subst for_loop.simps) simp

lemma for_loop_done: "\<not> i < n \<Longrightarrow> for_loop i n body s = s"
  by (subst for_loop.simps) simp

lemma for_loop_marks:
  fixes body :: "int \<Rightarrow> buffer \<Rightarrow> buffer"
  assumes "\<And>i s. i0 \<le> i \<Longrightarrow> i < n \<Longrightarrow>
     length (body i s) = length s \<and>
     (\<forall>j<length s. \<forall>k<8. bit (body i s ! j) k = (bit (s ! j) k \<or> M i j k))"
  shows "length (for_loop i0 n body s) = length s \<and>
     (\<forall>j<length s. \<forall>k<8. bit (for_loop i0 n body s ! j) k =
        (bit (s ! j) k \<or> (\<exists>i. i0 \<le> i \<and> i < n \<and> M i j k)))"
  using assms
proof (induction i0 n body s rule: for_loop.induct)
  case (1 i n body s)
  show ?case
  proof (cases "i < n")
    case False
    then show ?thesis by (auto simp: for_loop_done)
  next
    case True
    have b: "length (body i s) = length s"
      "\<And>j k. j < length s \<Longrightarrow> k < 8 \<Longrightarrow> bit (body i s ! j) k = (bit (s ! j) k \<or> M i j k)"
      using "1.prems" [of i s] True by auto
    have ih: "length (for_loop (i + 1) n body (body i s)) = length (body i s) \<and>
      (\<forall>j<length (body i s). \<forall>k<8. bit (for_loop (i + 1) n body (body i s) ! j) k =
        (bit (body i s ! j) k \<or> (\<exists>i'. i + 1 \<le> i' \<and> i' < n \<and> M i' j k)))"
      by (rule "1.IH" [OF True]) (use "1.prems" in force)
    have split: "(\<exists>i'. i \<le> i' \<and> i' < n \<and> M i' j k) \<longleftrightarrow>
        M i j k \<or> (\<exists>i'. i + 1 \<le> i' \<and> i' < n \<and> M i' j k)" for j k
    proof -
      have "i \<le> i' \<longleftrightarrow> i' = i \<or> i + 1 \<le> i'" for i' by auto
      then show ?thesis using True by auto
    qed
    show ?thesis
      unfolding for_loop_step [OF True] using ih b by (simp add: split)
  qed
qed

lemma or_assign_length:
  "length (buf_set out i v) = length out"
  by (simp add: buf_set_def)

lemma or_assign_bit:
  assumes "0 \<le> s" "s \<le> 7" "j < length out" "k < 8"
  shows "bit (buf_set out i (js_or (undefined_to_0 (buf_get out i)) (js_shl 1 s)) ! j) k =
     (bit (out ! j) k \<or> (int j = i \<and> k = nat s))"
proof (cases "0 \<le> i \<and> i < int (length out)")
  case False
  then show ?thesis using assms by (auto simp: buf_set_def)
next
  case True
  then have "buf_set out i (js_or (undefined_to_0 (buf_get out i)) (js_shl 1 s)) =
      out[nat i := set_bit (nat s) (out ! nat i)]"
    using assms by (simp add: buf_set_def buf_get_def undefined_to_0_def write_bit)
  then show ?thesis using assms True
    by (cases "j = nat i") (auto simp: bit_set_bit_iff)
qed

lemma aligned_body_eq:
  "aligned_body input widthBytes heightBytes x y output =
     (if src_bit input (y * widthBytes + js_shr x 3) x
      then buf_set output (x * heightBytes + js_shr y 3)
             (js_or (undefined_to_0 (buf_get output (x * heightBytes + js_shr y 3)))
                (js_shl 1 (7 - y mod 8)))
      else output)"
  by (simp add: aligned_body_def src_bit_def Let_def js_and7)

lemma generic_body_eq_aligned_body:
  "generic_body input inputStride outputStride x y output =
     aligned_body input inputStride outputStride x y output"
proof (cases "y * inputStride + js_shr x 3 < int (length input)")
  case True
  then show ?thesis by (simp add: generic_body_def aligned_body_def Let_def)
next
  case False
  then have "\<not> src_bit input (y * inputStride + js_shr x 3) x"
    by (simp add: src_bit_iff)
  with False show ?thesis
    by (simp add: generic_body_def aligned_body_eq Let_def)
qed

lemma aligned_body_marks:
  "length (aligned_body input wb hb x y s) = length s \<and>
   (\<forall>j<length s. \<forall>k<8. bit (aligned_body input wb hb x y s ! j) k =
      (bit (s ! j) k \<or>
       (src_bit input (y * wb + js_shr x 3) x \<and> x * hb + js_shr y 3 = int j
          \<and> k = nat (7 - y mod 8))))"
  using shift_range [of y]
  by (auto simp: aligned_body_eq or_assign_length or_assign_bit)

lemma aligned_loops_marks:
  "length (for_loop 0 W (\<lambda>x. for_loop 0 H (aligned_body input wb hb x)) s) = length s \<and>
   (\<forall>j<length s. \<forall>k<8.
      bit (for_loop 0 W (\<lambda>x. for_loop 0 H (aligned_body input wb hb x)) s ! j) k =
      (bit (s ! j) k \<or>
       (\<exists>x. 0 \<le> x \<and> x < W \<and> (\<exists>y. 0 \<le> y \<and> y < H \<and>
          src_bit input (y * wb + js_shr x 3) x \<and> x * hb + js_shr y 3 = int j
            \<and> k = nat (7 - y mod 8)))))"
  by (rule for_loop_marks, rule for_loop_marks, rule aligned_body_marks)

lemma coord_unique:
  fixes x y x' y' os :: int
  assumes "0 \<le> y" "y < 8 * os" "0 \<le> y'" "y' < 8 * os"
    and eq: "x' * os + y' div 8 = x * os + y div 8"
    and m: "y' mod 8 = y mod 8"
  shows "x' = x \<and> y' = y"
proof -
  have a: "0 \<le> y div 8" "y div 8 < os" "0 \<le> y' div 8" "y' div 8 < os"
    using assms by auto
  then have pos: "0 < os" by linarith
  have "(x' * os + y' div 8) div os = x'" "(x * os + y div 8) div os = x"
    using a pos by simp_all
  with eq have x: "x' = x" by simp
  with eq have "y' div 8 = y div 8" by simp
  with m have "y' = y"
    by (metis mult_div_mod_eq)
  with x show ?thesis by simp
qed

lemma row_index_range:
  fixes x y os W :: int
  assumes "0 \<le> x" "x < W" "0 \<le> y" "y < 8 * os"
  shows "0 \<le> x * os + y div 8 \<and> x * os + y div 8 < W * os"
proof -
  have a: "0 \<le> y div 8" "y div 8 < os" using assms by auto
  then have pos: "0 < os" by linarith
  have "x * os + y div 8 < (x + 1) * os"
    using a by (simp add: algebra_simps)
  also have "\<dots> \<le> W * os"
    using assms pos by (intro mult_right_mono) simp_all
  finally have "x * os + y div 8 < W * os" .
  moreover have "0 \<le> x * os" using assms pos by simp
  ultimately show ?thesis using a by linarith
qed

lemma bit_loops_transposed:
  fixes W H :: int
  assumes W: "W \<le> 2 ^ 31" and H: "H \<le> 2 ^ 31" and os: "H \<le> 8 * os"
    and x: "0 \<le> x" "x < W" and y: "0 \<le> y" "y < H"
  shows "bit_at (for_loop 0 W (\<lambda>x. for_loop 0 H (aligned_body input is os x))
                   (replicate (nat (W * os)) 0)) os x y
         \<longleftrightarrow> bit_at input is y x"
proof -
  define res where
    "res = for_loop 0 W (\<lambda>x. for_loop 0 H (aligned_body input is os x)) (replicate (nat (W * os)) 0)"
  have len: "length res = nat (W * os)"
    using aligned_loops_marks [of W H input "is" os "replicate (nat (W * os)) 0"]
    by (simp add: res_def)
  have y8: "y < 8 * os" using y os by simp
  have rng: "0 \<le> x * os + y div 8" "x * os + y div 8 < W * os"
    using row_index_range [OF x y(1) y8] by simp_all
  define j where "j = nat (x * os + y div 8)"
  have j: "j < nat (W * os)" "int j = x * os + y div 8"
    using rng by (simp_all add: j_def)
  have k: "nat (7 - y mod 8) < 8"
    using shift_range [of y] by simp
  have "bit (res ! j) (nat (7 - y mod 8)) \<longleftrightarrow>
      (\<exists>x'. 0 \<le> x' \<and> x' < W \<and> (\<exists>y'. 0 \<le> y' \<and> y' < H \<and>
          src_bit input (y' * is + js_shr x' 3) x' \<and> x' * os + js_shr y' 3 = int j
            \<and> nat (7 - y mod 8) = nat (7 - y' mod 8)))"
    using aligned_loops_marks [of W H input "is" os "replicate (nat (W * os)) 0"] j(1) k
    by (simp add: res_def)
  also have "\<dots> \<longleftrightarrow> src_bit input (y * is + x div 8) x"
  proof
    assume "\<exists>x'. 0 \<le> x' \<and> x' < W \<and> (\<exists>y'. 0 \<le> y' \<and> y' < H \<and>
          src_bit input (y' * is + js_shr x' 3) x' \<and> x' * os + js_shr y' 3 = int j
            \<and> nat (7 - y mod 8) = nat (7 - y' mod 8))"
    then obtain x' y' where h: "0 \<le> x'" "x' < W" "0 \<le> y'" "y' < H"
      "src_bit input (y' * is + js_shr x' 3) x'" "x' * os + js_shr y' 3 = int j"
      "nat (7 - y mod 8) = nat (7 - y' mod 8)"
      by blast
    have sx: "js_shr x' 3 = x' div 8" using h W by (intro js_shr3) simp_all
    have sy: "js_shr y' 3 = y' div 8" using h H by (intro js_shr3) simp_all
    have "y' mod 8 = y mod 8"
      using h(7) shift_range [of y] shift_range [of y'] by linarith
    moreover have "x' * os + y' div 8 = x * os + y div 8"
      using h(6) sy j(2) by simp
    ultimately have "x' = x \<and> y' = y"
      using coord_unique [of y os y' x' x] y y8 h os by simp
    with h(5) sx show "src_bit input (y * is + x div 8) x" by simp
  next
    assume s: "src_bit input (y * is + x div 8) x"
    have sx: "js_shr x 3 = x div 8" using x W by (intro js_shr3) simp_all
    have sy: "js_shr y 3 = y div 8" using y H by (intro js_shr3) simp_all
    show "\<exists>x'. 0 \<le> x' \<and> x' < W \<and> (\<exists>y'. 0 \<le> y' \<and> y' < H \<and>
          src_bit input (y' * is + js_shr x' 3) x' \<and> x' * os + js_shr y' 3 = int j
            \<and> nat (7 - y mod 8) = nat (7 - y' mod 8))"
      using s x y sx sy j(2) by (intro exI [of _ x] conjI exI [of _ y]) simp_all
  qed
  also have "\<dots> \<longleftrightarrow> bit_at input is y x"
    by (simp add: src_bit_iff bit_at_def Let_def)
  finally have "bit (res ! j) (nat (7 - y mod 8)) \<longleftrightarrow> bit_at input is y x" .
  moreover have "bit_at res os x y \<longleftrightarrow> bit (res ! j) (nat (7 - y mod 8))"
    using rng len by (simp add: bit_at_def Let_def j_def)
  ultimately show ?thesis by (simp add: res_def)
qed

section \<open>The byte-aligned 1-bit variant\<close>

lemma buf_alloc_ok:
  "0 \<le> n \<Longrightarrow> n \<le> MAX_LENGTH \<Longrightarrow> buf_alloc n = Inr (replicate (nat n) 0)"
  by (simp add: buf_alloc_def)


lemma aligned_run:
  assumes "0 \<le> W" "W < 2 ^ 31" "0 \<le> H" "H < 2 ^ 31" "W * (H div 8) \<le> MAX_LENGTH"
  shows "transpose1BitAligned input W H =
     Inr (for_loop 0 W (\<lambda>x. for_loop 0 H (aligned_body input (W div 8) (H div 8) x))
            (replicate (nat (W * (H div 8))) 0))"
proof -
  have "0 \<le> W * (H div 8)" using assms by simp
  then show ?thesis
    using assms by (simp add: transpose1BitAligned_def js_shr3 buf_alloc_ok Let_def)
qed

lemma aligned_sizes:
  fixes W H :: int
  assumes "8 dvd W" "8 dvd H"
  shows "W * (H div 8) = W div 8 * H"
  using assms by (auto simp: dvd_def)

text \<open>
  Claim C1, as the code has it. For a width and a height that are positive multiples of 8
  and below \<open>2\<^sup>3\<^sup>1\<close>, and an input buffer of \<open>width / 8 * height\<close> bytes (as a buffer, no
  longer than \<open>MAX_LENGTH\<close>), \<^verbatim>\<open>transpose1BitAligned\<close>
  returns a buffer of \<open>width * (height / 8)\<close> bytes in which the bit at row \<open>x\<close>, column \<open>y\<close>
  (row stride \<open>height / 8\<close>) is set exactly when the input's bit at row \<open>y\<close>, column \<open>x\<close>
  (row stride \<open>width / 8\<close>) is set. The 8 by 8 diagonal transposes to itself.
\<close>

theorem transpose1BitAligned_correct:
  assumes "0 < W" "0 < H" "W < 2 ^ 31" "H < 2 ^ 31" "8 dvd W" "8 dvd H"
    and "int (length input) = W div 8 * H" and "int (length input) \<le> MAX_LENGTH"
  shows "(\<exists>out. transpose1BitAligned input W H = Inr out \<and>
            int (length out) = W * (H div 8) \<and>
            (\<forall>x y. 0 \<le> x \<and> x < W \<and> 0 \<le> y \<and> y < H \<longrightarrow>
               bit_at out (H div 8) x y = bit_at input (W div 8) y x)) \<and>
         transpose1BitAligned [0x80, 0x40, 0x20, 0x10, 0x08, 0x04, 0x02, 0x01] 8 8 =
           Inr [0x80, 0x40, 0x20, 0x10, 0x08, 0x04, 0x02, 0x01]"
proof (intro conjI exI)
  let ?out = "for_loop 0 W (\<lambda>x. for_loop 0 H (aligned_body input (W div 8) (H div 8) x))
            (replicate (nat (W * (H div 8))) 0)"
  have "W * (H div 8) \<le> MAX_LENGTH"
    using aligned_sizes [of W H] assms by simp
  then show "transpose1BitAligned input W H = Inr ?out"
    using assms by (intro aligned_run) simp_all
  have "0 \<le> W * (H div 8)" using assms by simp
  then show "int (length ?out) = W * (H div 8)"
    using aligned_loops_marks [of W H input "W div 8" "H div 8" "replicate (nat (W * (H div 8))) 0"]
    by simp
  have H8: "H \<le> 8 * (H div 8)" using \<open>8 dvd H\<close> by auto
  show "\<forall>x y. 0 \<le> x \<and> x < W \<and> 0 \<le> y \<and> y < H \<longrightarrow>
               bit_at ?out (H div 8) x y = bit_at input (W div 8) y x"
    using bit_loops_transposed [of W H "H div 8" _ _ input "W div 8"] assms(3,4) H8
    by simp
  show "transpose1BitAligned [0x80, 0x40, 0x20, 0x10, 0x08, 0x04, 0x02, 0x01] 8 8 =
           Inr [0x80, 0x40, 0x20, 0x10, 0x08, 0x04, 0x02, 0x01]"
    by code_simp
qed

text \<open>The theorem at the 8 by 8 anti-diagonal, whose corner bits it relates.\<close>

theorem transpose1BitAligned_correct_witness:
  "transpose1BitAligned [0x01, 0x02, 0x04, 0x08, 0x10, 0x20, 0x40, 0x80] 8 8 =
     Inr [0x01, 0x02, 0x04, 0x08, 0x10, 0x20, 0x40, 0x80] \<and>
   bit_at [0x01, 0x02, 0x04, 0x08, 0x10, 0x20, 0x40, 0x80] 1 7 0 =
     bit_at [0x01, 0x02, 0x04, 0x08, 0x10, 0x20, 0x40, 0x80] 1 0 7"
proof -
  let ?input = "[0x01, 0x02, 0x04, 0x08, 0x10, 0x20, 0x40, 0x80] :: buffer"
  have run: "transpose1BitAligned ?input 8 8 = Inr ?input"
    by code_simp
  have "\<exists>out. transpose1BitAligned ?input 8 8 = Inr out \<and>
            int (length out) = 8 * (8 div 8) \<and>
            (\<forall>x y. 0 \<le> x \<and> x < 8 \<and> 0 \<le> y \<and> y < 8 \<longrightarrow>
               bit_at out (8 div 8) x y = bit_at ?input (8 div 8) y x)"
    using transpose1BitAligned_correct [of 8 8 ?input] by (simp add: MAX_LENGTH_def)
  then have "bit_at ?input (8 div 8) 7 0 = bit_at ?input (8 div 8) 0 7"
    unfolding run by auto
  with run show ?thesis by simp
qed

text \<open>
  Without the bound the claim fails: for height \<open>2\<^sup>3\<^sup>1\<close> the shift \<^verbatim>\<open>height >> 3\<close> is
  negative, and \<^verbatim>\<open>Buffer.alloc\<close> throws instead of returning \<open>8 * 2\<^sup>2\<^sup>8\<close> bytes.
\<close>

theorem transpose1BitAligned_huge_height:
  "(8::int) dvd 8 \<and> (8::int) dvd 2 ^ 31 \<and>
   int (length (replicate (2 ^ 31) (0::byte))) = 8 div 8 * 2 ^ 31 \<and>
   int (length (replicate (2 ^ 31) (0::byte))) \<le> MAX_LENGTH \<and>
   transpose1BitAligned (replicate (2 ^ 31) 0) 8 (2 ^ 31) = Inl RangeError"
  by (simp add: transpose1BitAligned_def js_shr_def to_int32_def buf_alloc_def MAX_LENGTH_def)

section \<open>The generic-stride 1-bit variant\<close>

lemma ceil_div8_pos: "0 < a \<Longrightarrow> 0 < ceil_div8 a"
  unfolding ceil_div8_def by linarith

lemma ceil_div8_cover: "a \<le> 8 * ceil_div8 a"
  unfolding ceil_div8_def by linarith

lemma ceil_div8_dvd: "8 dvd a \<Longrightarrow> ceil_div8 a = a div 8"
  unfolding ceil_div8_def by auto

lemma generic_loops_eq:
  "for_loop 0 W (\<lambda>x. for_loop 0 H (generic_body input is os x)) s =
   for_loop 0 W (\<lambda>x. for_loop 0 H (aligned_body input is os x)) s"
proof -
  have "generic_body input is os = aligned_body input is os"
    by (intro ext) (rule generic_body_eq_aligned_body)
  then show ?thesis by simp
qed

lemma generic_run:
  assumes "0 < W" "0 < H" "W * ceil_div8 H \<le> MAX_LENGTH"
  shows "transpose1BitGeneric input W H =
     Inr (for_loop 0 W (\<lambda>x. for_loop 0 H (aligned_body input (ceil_div8 W) (ceil_div8 H) x))
            (replicate (nat (W * ceil_div8 H)) 0))"
proof -
  have "0 \<le> W * ceil_div8 H" using assms ceil_div8_pos [of H] by simp
  then show ?thesis
    using assms(3)
    by (simp add: transpose1BitGeneric_def buf_alloc_ok Let_def generic_loops_eq)
qed





section \<open>A single set bit\<close>

lemma single_bit_loops:
  fixes W H :: int
  assumes W: "0 < W" "W \<le> 2 ^ 31" and H: "0 < H" "H \<le> 2 ^ 31"
    and x0: "0 \<le> x0" "x0 < W" and y0: "0 \<le> y0" "y0 < H"
    and len: "int (length input) = ceil_div8 W * H"
    and one: "only_bit input (y0 * ceil_div8 W + x0 div 8) (nat (7 - x0 mod 8))"
  shows "only_bit (for_loop 0 W (\<lambda>x. for_loop 0 H (aligned_body input (ceil_div8 W) (ceil_div8 H) x))
                     (replicate (nat (W * ceil_div8 H)) 0))
           (x0 * ceil_div8 H + y0 div 8) (nat (7 - y0 mod 8))"
proof -
  let ?is = "ceil_div8 W" and ?os = "ceil_div8 H"
  let ?s = "replicate (nat (W * ?os)) (0::byte)"
  let ?res = "for_loop 0 W (\<lambda>x. for_loop 0 H (aligned_body input ?is ?os x)) ?s"
  have marks: "length ?res = length ?s"
    "\<And>j k. j < length ?s \<Longrightarrow> k < 8 \<Longrightarrow> bit (?res ! j) k =
      (\<exists>x. 0 \<le> x \<and> x < W \<and> (\<exists>y. 0 \<le> y \<and> y < H \<and>
          src_bit input (y * ?is + js_shr x 3) x \<and> x * ?os + js_shr y 3 = int j
            \<and> k = nat (7 - y mod 8)))"
    using aligned_loops_marks [of W H input ?is ?os ?s] by simp_all
  have src: "src_bit input (y * ?is + js_shr x 3) x \<longleftrightarrow> x = x0 \<and> y = y0"
    if x: "0 \<le> x" "x < W" and y: "0 \<le> y" "y < H" for x y
  proof -
    have sx: "js_shr x 3 = x div 8" using x W by (intro js_shr3) simp_all
    have x8: "x < 8 * ?is" "x0 < 8 * ?is"
      using x x0 ceil_div8_cover [of W] by simp_all
    have rng: "0 \<le> y * ?is + x div 8" "y * ?is + x div 8 < H * ?is"
      using row_index_range [OF y x(1) x8(1)] by simp_all
    then have inb: "nat (y * ?is + x div 8) < length input"
      using len by (simp add: nat_less_iff mult.commute)
    have sh: "nat (7 - x mod 8) < 8" using shift_range [of x] by simp
    have "src_bit input (y * ?is + x div 8) x \<longleftrightarrow>
        y * ?is + x div 8 = y0 * ?is + x0 div 8 \<and> nat (7 - x mod 8) = nat (7 - x0 mod 8)"
      using one inb sh rng len by (simp add: src_bit_iff only_bit_def mult.commute)
    also have "\<dots> \<longleftrightarrow> x = x0 \<and> y = y0"
    proof
      assume a: "y * ?is + x div 8 = y0 * ?is + x0 div 8 \<and> nat (7 - x mod 8) = nat (7 - x0 mod 8)"
      then have "nat (7 - x mod 8) = nat (7 - x0 mod 8)" by simp
      then have "x mod 8 = x0 mod 8"
        using shift_range [of x] shift_range [of x0] by linarith
      with a show "x = x0 \<and> y = y0"
        using coord_unique [of x0 ?is x y y0] x x0 x8 by simp
    qed simp
    finally show ?thesis by (simp add: sx)
  qed
  have y8: "y0 < 8 * ?os" using y0 ceil_div8_cover [of H] by simp
  have orng: "0 \<le> x0 * ?os + y0 div 8" "x0 * ?os + y0 div 8 < W * ?os"
    using row_index_range [OF x0 y0(1) y8] by simp_all
  have olen: "int (length ?res) = W * ?os"
    using marks(1) orng by simp
  have osh: "nat (7 - y0 mod 8) < 8" using shift_range [of y0] by simp
  show ?thesis
    unfolding only_bit_def
  proof (intro conjI allI impI)
    show "0 \<le> x0 * ?os + y0 div 8" by (rule orng(1))
    show "x0 * ?os + y0 div 8 < int (length ?res)" using orng(2) olen by simp
    show "nat (7 - y0 mod 8) < 8" by (rule osh)
  next
    fix j k assume j: "j < length ?res" and k: "k < (8::nat)"
    from j have j': "j < length ?s" by (simp add: marks(1))
    have sy0: "js_shr y0 3 = y0 div 8" using y0 H by (intro js_shr3) simp_all
    have "bit (?res ! j) k \<longleftrightarrow>
      (\<exists>x. 0 \<le> x \<and> x < W \<and> (\<exists>y. 0 \<le> y \<and> y < H \<and>
          src_bit input (y * ?is + js_shr x 3) x \<and> x * ?os + js_shr y 3 = int j
            \<and> k = nat (7 - y mod 8)))"
      by (rule marks(2) [OF j' k])
    also have "\<dots> \<longleftrightarrow> (\<exists>x. 0 \<le> x \<and> x < W \<and> (\<exists>y. 0 \<le> y \<and> y < H \<and>
          (x = x0 \<and> y = y0) \<and> x * ?os + js_shr y 3 = int j \<and> k = nat (7 - y mod 8)))"
      using src by blast
    also have "\<dots> \<longleftrightarrow> int j = x0 * ?os + y0 div 8 \<and> k = nat (7 - y0 mod 8)"
      using x0 y0 sy0 by auto
    finally show "bit (?res ! j) k = (int j = x0 * ?os + y0 div 8 \<and> k = nat (7 - y0 mod 8))" .
  qed
qed

lemma only_bit_update:
  assumes "i < n" "k < 8"
  shows "only_bit ((replicate n 0)[i := push_bit k 1]) (int i) k"
  using assms by (auto simp: only_bit_def nth_list_update bit_exp_iff)

lemma only_bit_set:
  assumes "only_bit buf (row * stride + col div 8) (nat (7 - col mod 8))"
  shows "bit_at buf stride row col"
  using assms by (simp add: only_bit_def bit_at_def Let_def nat_less_iff)

text \<open>
  Claim C8, as the code has it. Take positive dimensions up to \<open>2\<^sup>3\<^sup>1\<close> whose output size
  \<open>width * ceil(height / 8)\<close> is at most \<open>MAX_LENGTH\<close>, and a correctly sized input whose only
  set bit is at column \<open>x0\<close>, row \<open>y0\<close>. The generic-stride variant returns a buffer of
  \<open>width * ceil(height / 8)\<close> bytes that has byte \<open>x0 * ceil(height / 8) + y0 div 8\<close>, in which
  bit \<open>7 - y0 mod 8\<close> of that byte is set (output row \<open>x0\<close>, column \<open>y0\<close>) and no other bit
  is. When both dimensions are multiples of 8 below \<open>2\<^sup>3\<^sup>1\<close>, the byte-aligned variant returns
  that buffer too, and its stride \<open>height / 8\<close> is the same.
\<close>

theorem single_bit_transposed:
  assumes "0 < W" "W \<le> 2 ^ 31" "0 < H" "H \<le> 2 ^ 31"
    and "W * ceil_div8 H \<le> MAX_LENGTH"
    and "0 \<le> x0" "x0 < W" "0 \<le> y0" "y0 < H"
    and "int (length input) = ceil_div8 W * H"
    and "only_bit input (y0 * ceil_div8 W + x0 div 8) (nat (7 - x0 mod 8))"
  shows "\<exists>out. transpose1BitGeneric input W H = Inr out \<and>
           int (length out) = W * ceil_div8 H \<and>
           0 \<le> x0 * ceil_div8 H + y0 div 8 \<and>
           x0 * ceil_div8 H + y0 div 8 < int (length out) \<and>
           bit (out ! nat (x0 * ceil_div8 H + y0 div 8)) (nat (7 - y0 mod 8)) \<and>
           bit_at out (ceil_div8 H) x0 y0 \<and>
           only_bit out (x0 * ceil_div8 H + y0 div 8) (nat (7 - y0 mod 8)) \<and>
           (8 dvd W \<and> 8 dvd H \<and> W < 2 ^ 31 \<and> H < 2 ^ 31 \<longrightarrow>
              transpose1BitAligned input W H = Inr out \<and> ceil_div8 H = H div 8)"
proof -
  let ?out = "for_loop 0 W (\<lambda>x. for_loop 0 H (aligned_body input (ceil_div8 W) (ceil_div8 H) x))
            (replicate (nat (W * ceil_div8 H)) 0)"
  let ?i = "x0 * ceil_div8 H + y0 div 8"
  have run: "transpose1BitGeneric input W H = Inr ?out"
    using assms(1,3,5) by (rule generic_run)
  have one: "only_bit ?out ?i (nat (7 - y0 mod 8))"
    using assms(1-4,6-11) by (rule single_bit_loops)
  have "0 \<le> W * ceil_div8 H" using assms ceil_div8_pos [of H] by simp
  then have len: "int (length ?out) = W * ceil_div8 H"
    using aligned_loops_marks [of W H input "ceil_div8 W" "ceil_div8 H"
        "replicate (nat (W * ceil_div8 H)) 0"]
    by simp
  have rng: "0 \<le> ?i" "?i < int (length ?out)"
    using one by (simp_all add: only_bit_def)
  have at: "bit_at ?out (ceil_div8 H) x0 y0"
    using one by (rule only_bit_set)
  then have set: "bit (?out ! nat ?i) (nat (7 - y0 mod 8))"
    by (simp add: bit_at_def Let_def)
  have al: "transpose1BitAligned input W H = Inr ?out \<and> ceil_div8 H = H div 8"
    if "8 dvd W \<and> 8 dvd H \<and> W < 2 ^ 31 \<and> H < 2 ^ 31"
    using that assms(1,3,5) by (simp add: aligned_run ceil_div8_dvd)
  from run len rng set at one al show ?thesis by blast
qed

text \<open>
  The theorem at an 8 by 8 matrix whose only set bit is at column 3, row 5: both variants
  return the buffer whose only set bit is at row 3, column 5.
\<close>

theorem single_bit_transposed_witness:
  "transpose1BitGeneric [0, 0, 0, 0, 0, 0x10, 0, 0] 8 8 = Inr [0, 0, 0, 0x04, 0, 0, 0, 0] \<and>
   transpose1BitAligned [0, 0, 0, 0, 0, 0x10, 0, 0] 8 8 = Inr [0, 0, 0, 0x04, 0, 0, 0, 0] \<and>
   only_bit [0, 0, 0, 0x04, 0, 0, 0, 0] (3 * ceil_div8 8 + 5 div 8) (nat (7 - 5 mod 8))"
proof -
  let ?input = "[0, 0, 0, 0, 0, 0x10, 0, 0] :: buffer"
  have c: "ceil_div8 8 = 1" by (simp add: ceil_div8_def)
  have "only_bit ((replicate 8 0)[5 := push_bit 4 1]) (int 5) 4"
    by (rule only_bit_update) simp_all
  moreover have "(replicate 8 0)[5 := push_bit 4 1] = ?input"
    by (simp add: numeral_eq_Suc)
  ultimately have one: "only_bit ?input (5 * ceil_div8 8 + 3 div 8) (nat (7 - 3 mod 8))"
    by (simp add: c)
  have len: "int (length ?input) = ceil_div8 8 * 8" by (simp add: c)
  obtain out where g: "transpose1BitGeneric ?input 8 8 = Inr out"
    and o: "only_bit out (3 * ceil_div8 8 + 5 div 8) (nat (7 - 5 mod 8))"
    and a: "transpose1BitAligned ?input 8 8 = Inr out"
    using single_bit_transposed [of 8 8 3 5 ?input, OF _ _ _ _ _ _ _ _ _ len one]
    by (auto simp: c MAX_LENGTH_def)
  have "transpose1BitGeneric ?input 8 8 = Inr [0, 0, 0, 0x04, 0, 0, 0, 0]"
    by code_simp
  with g have "out = [0, 0, 0, 0x04, 0, 0, 0, 0]" by simp
  with g o a show ?thesis by simp
qed

text \<open>
  Without the bound on the dimensions the claim fails: for width 8 and height \<open>2\<^sup>3\<^sup>1\<close>, whose
  output size \<open>2\<^sup>3\<^sup>1\<close> is within \<open>MAX_LENGTH\<close>, on the correctly sized input whose only set bit
  is at column 0, row 0, the byte-aligned variant throws and returns no buffer.
\<close>

theorem single_bit_huge_height:
  "int (length ((replicate (2 ^ 31) (0::byte))[0 := push_bit 7 1])) = 8 div 8 * 2 ^ 31 \<and>
   8 * (2 ^ 31 div 8) \<le> MAX_LENGTH \<and>
   only_bit ((replicate (2 ^ 31) 0)[0 := push_bit 7 1]) (0 * (8 div 8) + 0 div 8) (nat (7 - 0 mod 8)) \<and>
   transpose1BitAligned ((replicate (2 ^ 31) 0)[0 := push_bit 7 1]) 8 (2 ^ 31) = Inl RangeError"
proof -
  have "only_bit ((replicate (2 ^ 31) 0)[0 := push_bit 7 1]) (int 0) 7"
    by (rule only_bit_update) simp_all
  then show ?thesis
    by (simp add: transpose1BitAligned_def js_shr_def to_int32_def buf_alloc_def MAX_LENGTH_def)
qed

section \<open>The tightly packed 1-bit variant\<close>








lemma cursor_range:
  fixes x y W H :: int
  assumes "0 \<le> x" "x < W" "0 \<le> y" "y < H"
  shows "0 \<le> H * x + y \<and> H * x + y < W * H"
proof -
  have "H * x + y < (x + 1) * H"
    using assms by (simp add: algebra_simps)
  also have "\<dots> \<le> W * H"
    using assms by (intro mult_right_mono) simp_all
  finally have "H * x + y < W * H" .
  moreover have "0 \<le> H * x" using assms by simp
  ultimately show ?thesis using assms by linarith
qed








section \<open>The 8-bit variant\<close>

lemma for_loop_writes:
  fixes body :: "int \<Rightarrow> buffer \<Rightarrow> buffer"
  assumes "\<And>i s. i0 \<le> i \<Longrightarrow> i < n \<Longrightarrow>
     length (body i s) = length s \<and>
     (\<forall>j<length s. body i s ! j = (if Wr i j then V j else s ! j))"
  shows "length (for_loop i0 n body s) = length s \<and>
     (\<forall>j<length s. for_loop i0 n body s ! j =
        (if \<exists>i. i0 \<le> i \<and> i < n \<and> Wr i j then V j else s ! j))"
  using assms
proof (induction i0 n body s rule: for_loop.induct)
  case (1 i n body s)
  show ?case
  proof (cases "i < n")
    case False
    then show ?thesis by (auto simp: for_loop_done)
  next
    case True
    have b: "length (body i s) = length s"
      "\<And>j. j < length s \<Longrightarrow> body i s ! j = (if Wr i j then V j else s ! j)"
      using "1.prems" [of i s] True by auto
    let ?r = "for_loop (i + 1) n body (body i s)"
    have ih: "length ?r = length (body i s) \<and>
      (\<forall>j<length (body i s). ?r ! j =
        (if \<exists>i'. i + 1 \<le> i' \<and> i' < n \<and> Wr i' j then V j else body i s ! j))"
      by (rule "1.IH" [OF True]) (use "1.prems" in force)
    have split: "(\<exists>i'. i \<le> i' \<and> i' < n \<and> Wr i' j) \<longleftrightarrow>
        Wr i j \<or> (\<exists>i'. i + 1 \<le> i' \<and> i' < n \<and> Wr i' j)" for j
    proof -
      have "i \<le> i' \<longleftrightarrow> i' = i \<or> i + 1 \<le> i'" for i' by auto
      then show ?thesis using True by auto
    qed
    have "?r ! j = (if \<exists>i'. i \<le> i' \<and> i' < n \<and> Wr i' j then V j else s ! j)"
      if "j < length s" for j
    proof -
      define later where "later \<longleftrightarrow> (\<exists>i'. i + 1 \<le> i' \<and> i' < n \<and> Wr i' j)"
      have r: "?r ! j = (if later then V j else body i s ! j)"
        unfolding later_def using ih b(1) that by metis
      have sp: "(\<exists>i'. i \<le> i' \<and> i' < n \<and> Wr i' j) \<longleftrightarrow> Wr i j \<or> later"
        unfolding later_def by (rule split)
      show ?thesis
        unfolding sp r b(2) [OF that] by simp
    qed
    then show ?thesis
      unfolding for_loop_step [OF True] using ih b(1) by simp
  qed
qed

lemma byte_body_writes:
  assumes "0 < H" "0 \<le> y" "y < H"
  shows "length (byte_body input W H x y s) = length s \<and>
     (\<forall>j<length s. byte_body input W H x y s ! j =
        (if int j = x * H + y
         then word_of_int (undefined_to_0 (buf_get input (int j mod H * W + int j div H)))
         else s ! j))"
proof -
  have "(x * H + y) div H = x" "(x * H + y) mod H = y"
    using assms by simp_all
  then show ?thesis
    by (auto simp: byte_body_def buf_set_def Let_def nth_list_update)
qed

lemma byte_loops_writes:
  assumes "0 < H"
  shows "length (for_loop 0 W (\<lambda>x. for_loop 0 H (byte_body input W H x)) s) = length s \<and>
     (\<forall>j<length s. for_loop 0 W (\<lambda>x. for_loop 0 H (byte_body input W H x)) s ! j =
        (if \<exists>x. 0 \<le> x \<and> x < W \<and> (\<exists>y. 0 \<le> y \<and> y < H \<and> int j = x * H + y)
         then word_of_int (undefined_to_0 (buf_get input (int j mod H * W + int j div H)))
         else s ! j))"
  by (rule for_loop_writes, rule for_loop_writes, rule byte_body_writes [OF assms])

lemma transpose8Bit_run:
  assumes "0 < W" "0 < H" "W * H \<le> MAX_LENGTH"
  shows "transpose8Bit input W H =
     Inr (for_loop 0 W (\<lambda>x. for_loop 0 H (byte_body input W H x)) (replicate (nat (W * H)) 0))"
proof -
  have "0 \<le> W * H" using assms by simp
  then show ?thesis using assms(3) by (simp add: transpose8Bit_def buf_alloc_ok)
qed

lemma transpose8Bit_nth:
  assumes "0 < W" "0 < H" and len: "int (length input) = W * H"
    and lim: "int (length input) \<le> MAX_LENGTH"
  obtains out where "transpose8Bit input W H = Inr out" "int (length out) = W * H"
    "\<And>x y. 0 \<le> x \<Longrightarrow> x < W \<Longrightarrow> 0 \<le> y \<Longrightarrow> y < H \<Longrightarrow>
       out ! nat (x * H + y) = input ! nat (y * W + x)"
proof
  let ?s = "replicate (nat (W * H)) (0::byte)"
  let ?out = "for_loop 0 W (\<lambda>x. for_loop 0 H (byte_body input W H x)) ?s"
  have "W * H \<le> MAX_LENGTH" using len lim by simp
  with assms(1,2) show "transpose8Bit input W H = Inr ?out"
    by (rule transpose8Bit_run)
  have WH: "0 \<le> W * H" using assms by simp
  show "int (length ?out) = W * H"
    using byte_loops_writes [OF assms(2), of W input ?s] WH by simp
  fix x y :: int
  assume x: "0 \<le> x" "x < W" and y: "0 \<le> y" "y < H"
  have o: "0 \<le> H * x + y" "H * x + y < W * H"
    using cursor_range [OF x y] by simp_all
  have i: "0 \<le> W * y + x" "W * y + x < H * W"
    using cursor_range [OF y x] by simp_all
  have dm: "(x * H + y) div H = x" "(x * H + y) mod H = y"
    using y by simp_all
  have j: "nat (x * H + y) < length ?s" "int (nat (x * H + y)) = x * H + y"
    using o by (simp_all add: mult.commute)
  have "?out ! nat (x * H + y) =
      word_of_int (undefined_to_0 (buf_get input (int (nat (x * H + y)) mod H * W
         + int (nat (x * H + y)) div H)))"
    using byte_loops_writes [OF assms(2), of W input ?s] j(1) x y
    unfolding j(2) by auto
  also have "\<dots> = word_of_int (undefined_to_0 (buf_get input (y * W + x)))"
    unfolding j(2) dm ..
  also have "\<dots> = input ! nat (y * W + x)"
    using i len by (simp add: buf_get_def undefined_to_0_def mult.commute)
  finally show "?out ! nat (x * H + y) = input ! nat (y * W + x)" .
qed

text \<open>
  Claim C4. For every positive width and height and an input buffer of \<open>width * height\<close>
  bytes (as a buffer, no longer than \<open>MAX_LENGTH\<close>), \<^verbatim>\<open>transpose8Bit\<close> returns a buffer of \<open>width * height\<close> bytes with
  \<open>output[x * height + y] = input[y * width + x]\<close> for every \<open>x\<close> below the width and \<open>y\<close> below
  the height. The bytes 1 to 6 as a matrix of width 2 and height 3 transpose to
  \<open>[1, 3, 5, 2, 4, 6]\<close>.
\<close>

theorem transpose8Bit_correct:
  assumes "0 < W" "0 < H" "int (length input) = W * H" "int (length input) \<le> MAX_LENGTH"
  shows "(\<exists>out. transpose8Bit input W H = Inr out \<and>
            int (length out) = W * H \<and>
            (\<forall>x y. 0 \<le> x \<and> x < W \<and> 0 \<le> y \<and> y < H \<longrightarrow>
               out ! nat (x * H + y) = input ! nat (y * W + x))) \<and>
         transpose8Bit [1, 2, 3, 4, 5, 6] 2 3 = Inr [1, 3, 5, 2, 4, 6]"
proof
  show "\<exists>out. transpose8Bit input W H = Inr out \<and>
            int (length out) = W * H \<and>
            (\<forall>x y. 0 \<le> x \<and> x < W \<and> 0 \<le> y \<and> y < H \<longrightarrow>
               out ! nat (x * H + y) = input ! nat (y * W + x))"
    using transpose8Bit_nth [OF assms] by metis
  show "transpose8Bit [1, 2, 3, 4, 5, 6] 2 3 = Inr [1, 3, 5, 2, 4, 6]"
    by code_simp
qed

text \<open>The theorem at a matrix of width 3 and height 2, read at \<open>x = 2\<close>, \<open>y = 1\<close>.\<close>

theorem transpose8Bit_correct_witness:
  "transpose8Bit [10, 20, 30, 40, 50, 60] 3 2 = Inr [10, 40, 20, 50, 30, 60] \<and>
   [10, 40, 20, 50, 30, 60] ! nat (2 * 2 + 1) = ([10, 20, 30, 40, 50, 60] :: buffer) ! nat (1 * 3 + 2)"
proof -
  let ?input = "[10, 20, 30, 40, 50, 60] :: buffer"
  have run: "transpose8Bit ?input 3 2 = Inr [10, 40, 20, 50, 30, 60]"
    by code_simp
  obtain out where out: "transpose8Bit ?input 3 2 = Inr out"
    and m: "\<forall>x y. 0 \<le> x \<and> x < 3 \<and> 0 \<le> y \<and> y < 2 \<longrightarrow>
               out ! nat (x * 2 + y) = ?input ! nat (y * 3 + x)"
    using transpose8Bit_correct [of 3 2 ?input] by (auto simp: MAX_LENGTH_def)
  from m have "out ! nat (2 * 2 + 1) = ?input ! nat (1 * 3 + 2)"
    by (elim allE [of _ 2] allE [of _ 1]) simp
  with out run show ?thesis by simp
qed


lemma transpose_bpp8:
  "buffer_transpose input W H \<lparr>bpp = JsNumber 8, packed = p\<rparr> = transpose8Bit input W H"
  by (simp add: buffer_transpose_def bpp_or_1_def)

text \<open>
  Claim C7. For every positive width and height and every input buffer of \<open>width * height\<close>
  bytes (as a buffer, no longer than \<open>MAX_LENGTH\<close>), transposing with \<^verbatim>\<open>bpp: 8\<close> and
  transposing the result with the dimensions swapped gives the input again.
\<close>

theorem transpose8Bit_twice:
  assumes "0 < W" "0 < H" "int (length input) = W * H" "int (length input) \<le> MAX_LENGTH"
  shows "\<exists>out. buffer_transpose input W H \<lparr>bpp = JsNumber 8, packed = p\<rparr> = Inr out \<and>
           buffer_transpose out H W \<lparr>bpp = JsNumber 8, packed = p\<rparr> = Inr input"
proof -
  obtain out where out: "transpose8Bit input W H = Inr out" "int (length out) = W * H"
    "\<And>x y. 0 \<le> x \<Longrightarrow> x < W \<Longrightarrow> 0 \<le> y \<Longrightarrow> y < H \<Longrightarrow>
       out ! nat (x * H + y) = input ! nat (y * W + x)"
    using transpose8Bit_nth [OF assms] by blast
  have len': "int (length out) = H * W" using out(2) by (simp add: mult.commute)
  have lim': "int (length out) \<le> MAX_LENGTH" using out(2) assms(3,4) by simp
  obtain res where res: "transpose8Bit out H W = Inr res" "int (length res) = H * W"
    "\<And>y x. 0 \<le> y \<Longrightarrow> y < H \<Longrightarrow> 0 \<le> x \<Longrightarrow> x < W \<Longrightarrow>
       res ! nat (y * W + x) = out ! nat (x * H + y)"
    using transpose8Bit_nth [OF assms(2,1) len' lim'] by blast
  have "res = input"
  proof (rule nth_equalityI)
    show "length res = length input"
      using res(2) assms(3) by (simp add: mult.commute)
    fix j assume "j < length res"
    then have j: "int j < H * W" using res(2) by simp
    define x y where "x = int j mod W" and "y = int j div W"
    have x: "0 \<le> x" "x < W" using assms(1) by (simp_all add: x_def)
    have y0: "0 \<le> y" using assms(1) by (simp add: y_def pos_imp_zdiv_nonneg_iff)
    have e: "nat (y * W + x) = j" by (simp add: x_def y_def)
    have y1: "y < H"
    proof (rule ccontr)
      assume "\<not> y < H"
      then have "H * W \<le> y * W"
        using assms(1) by (intro mult_right_mono) simp_all
      moreover have "int j = y * W + x" by (simp add: x_def y_def)
      ultimately show False using j x by linarith
    qed
    have "res ! nat (y * W + x) = input ! nat (y * W + x)"
      using res(3) [OF y0 y1 x] out(3) [OF x y0 y1] by simp
    then show "res ! j = input ! j" unfolding e .
  qed
  with out(1) res(1) show ?thesis
    by (simp add: transpose_bpp8)
qed

text \<open>The theorem at a matrix of width 3 and height 2.\<close>

theorem transpose8Bit_twice_witness:
  "buffer_transpose [10, 20, 30, 40, 50, 60] 3 2 \<lparr>bpp = JsNumber 8, packed = None\<rparr> =
     Inr [10, 40, 20, 50, 30, 60] \<and>
   buffer_transpose [10, 40, 20, 50, 30, 60] 2 3 \<lparr>bpp = JsNumber 8, packed = None\<rparr> =
     Inr [10, 20, 30, 40, 50, 60]"
proof -
  let ?input = "[10, 20, 30, 40, 50, 60] :: buffer"
  have run: "buffer_transpose ?input 3 2 \<lparr>bpp = JsNumber 8, packed = None\<rparr> =
      Inr [10, 40, 20, 50, 30, 60]"
    unfolding transpose_bpp8 by code_simp
  obtain out where "buffer_transpose ?input 3 2 \<lparr>bpp = JsNumber 8, packed = None\<rparr> = Inr out"
    "buffer_transpose out 2 3 \<lparr>bpp = JsNumber 8, packed = None\<rparr> = Inr ?input"
    using transpose8Bit_twice [of 3 2 ?input None] by (auto simp: MAX_LENGTH_def)
  with run show ?thesis by simp
qed

section \<open>The dispatcher\<close>

lemma js_rem_8_iff: "js_rem a 8 = 0 \<longleftrightarrow> 8 dvd a"
proof -
  have "js_rem a 8 = 0 \<longleftrightarrow> \<bar>a\<bar> mod 8 = 0"
    by (cases "a = 0") (simp_all add: js_rem_def sgn_if)
  also have "\<dots> \<longleftrightarrow> 8 dvd a"
    by (simp add: mod_eq_0_iff_dvd)
  finally show ?thesis .
qed

text \<open>
  Claim C5. With \<^verbatim>\<open>bpp\<close> 1 or omitted: a true \<^verbatim>\<open>packed\<close> flag selects the packed variant;
  otherwise width and height both divisible by 8 select the byte-aligned variant; otherwise
  the generic-stride variant runs. With \<^verbatim>\<open>bpp\<close> 8 the 8-bit variant runs. An omitted
  \<^verbatim>\<open>bpp\<close> is the same call as \<^verbatim>\<open>bpp: 1\<close>, an omitted \<^verbatim>\<open>packed\<close> the same call as
  \<^verbatim>\<open>packed: false\<close>.
\<close>

theorem transpose_dispatch:
  "(b = JsNumber 1 \<or> b = JsUndefined \<longrightarrow>
      buffer_transpose input W H \<lparr>bpp = b, packed = Some True\<rparr> = transpose1BitPacked input W H) \<and>
   ((b = JsNumber 1 \<or> b = JsUndefined) \<and> (p = Some False \<or> p = None) \<and>
      js_rem W 8 = 0 \<and> js_rem H 8 = 0 \<longrightarrow>
      buffer_transpose input W H \<lparr>bpp = b, packed = p\<rparr> = transpose1BitAligned input W H) \<and>
   ((b = JsNumber 1 \<or> b = JsUndefined) \<and> (p = Some False \<or> p = None) \<and>
      \<not> (js_rem W 8 = 0 \<and> js_rem H 8 = 0) \<longrightarrow>
      buffer_transpose input W H \<lparr>bpp = b, packed = p\<rparr> = transpose1BitGeneric input W H) \<and>
   buffer_transpose input W H \<lparr>bpp = JsNumber 8, packed = p\<rparr> = transpose8Bit input W H \<and>
   buffer_transpose input W H \<lparr>bpp = JsUndefined, packed = p\<rparr> =
     buffer_transpose input W H \<lparr>bpp = JsNumber 1, packed = p\<rparr> \<and>
   buffer_transpose input W H \<lparr>bpp = b, packed = None\<rparr> =
     buffer_transpose input W H \<lparr>bpp = b, packed = Some False\<rparr> \<and>
   (js_rem W 8 = 0 \<and> js_rem H 8 = 0) = (8 dvd W \<and> 8 dvd H)"
  by (auto simp: buffer_transpose_def bpp_or_1_def packed_or_false_def js_rem_8_iff)

text \<open>
  The theorem at one call per branch: a packed 3 by 3 call, an aligned 8 by 8 call with both
  options omitted, a generic 3 by 2 call, and an 8-bit call.
\<close>

theorem transpose_dispatch_witness:
  "buffer_transpose [0xFF, 0x80, 0x40] 3 3 \<lparr>bpp = JsNumber 1, packed = Some True\<rparr> =
     transpose1BitPacked [0xFF, 0x80, 0x40] 3 3 \<and>
   buffer_transpose [0x80, 0x40, 0x20, 0x10, 0x08, 0x04, 0x02, 0x01] 8 8
       \<lparr>bpp = JsUndefined, packed = None\<rparr> =
     transpose1BitAligned [0x80, 0x40, 0x20, 0x10, 0x08, 0x04, 0x02, 0x01] 8 8 \<and>
   buffer_transpose [0xA0, 0x40] 3 2 \<lparr>bpp = JsNumber 1, packed = Some False\<rparr> =
     transpose1BitGeneric [0xA0, 0x40] 3 2 \<and>
   buffer_transpose [1, 2, 3, 4, 5, 6] 2 3 \<lparr>bpp = JsNumber 8, packed = None\<rparr> =
     transpose8Bit [1, 2, 3, 4, 5, 6] 2 3"
proof -
  have r: "js_rem 8 8 = 0" "js_rem 3 8 \<noteq> 0"
    by (simp_all add: js_rem_def)
  show ?thesis
    using transpose_dispatch [of "JsNumber 1" "[0xFF, 0x80, 0x40]" 3 3 "Some True"]
      transpose_dispatch [of JsUndefined "[0x80, 0x40, 0x20, 0x10, 0x08, 0x04, 0x02, 0x01]" 8 8 None]
      transpose_dispatch [of "JsNumber 1" "[0xA0, 0x40]" 3 2 "Some False"]
      transpose_dispatch [of "JsNumber 8" "[1, 2, 3, 4, 5, 6]" 2 3 None]
      r
    by simp
qed










section \<open>Frame: what a call touches\<close>

lemma for_loop_simulation:
  assumes "\<And>i s. body' i (emb s) = emb (body i s)"
  shows "for_loop i n body' (emb s) = emb (for_loop i n body s)"
  using assms
proof (induction i n body s rule: for_loop.induct)
  case (1 i n body s)
  show ?case
  proof (cases "i < n")
    case True
    then show ?thesis
      using "1.IH" [OF True] "1.prems" by (simp add: for_loop_step)
  next
    case False
    then show ?thesis by (simp add: for_loop_done)
  qed
qed

lemma st_get_put:
  assumes "r < length h" "r' < length h"
  shows "st_get (h[r := b]) r' i = buf_get (if r' = r then b else h ! r') i"
  using assms by (simp add: st_get_def)

lemma st_set_put:
  assumes "r < length h"
  shows "st_set (h[r := b]) r i v = h[r := buf_set b i v]"
  using assms by (simp add: st_set_def)

lemma st_length_put:
  assumes "r < length h" "r' < length h" "r' \<noteq> r"
  shows "st_length (h[r := b]) r' = int (length (h ! r'))"
  using assms by (simp add: st_length_def)

lemma aligned_body_st_put:
  assumes "inp < length h" "outp < length h" "inp \<noteq> outp"
  shows "aligned_body_st inp wb hb outp x y (h[outp := b]) =
     h[outp := aligned_body (h ! inp) wb hb x y b]"
  using assms
  by (simp add: aligned_body_st_def aligned_body_def Let_def st_get_put st_set_put)

lemma generic_body_st_put:
  assumes "inp < length h" "outp < length h" "inp \<noteq> outp"
  shows "generic_body_st inp is os outp x y (h[outp := b]) =
     h[outp := generic_body (h ! inp) is os x y b]"
  using assms
  by (simp add: generic_body_st_def generic_body_def Let_def st_get_put st_set_put st_length_put)

lemma packed_body_st_put:
  assumes "inp < length h" "outp < length h" "inp \<noteq> outp"
  shows "packed_body_st inp is outp x y (h[outp := fst s], snd s) =
     (h[outp := fst (packed_body (h ! inp) is x y s)], snd (packed_body (h ! inp) is x y s))"
  using assms
  by (simp add: packed_body_st_def packed_body_def Let_def st_get_put st_set_put st_length_put)

lemma byte_body_st_put:
  assumes "inp < length h" "outp < length h" "inp \<noteq> outp"
  shows "byte_body_st inp W H outp x y (h[outp := b]) =
     h[outp := byte_body (h ! inp) W H x y b]"
  using assms
  by (simp add: byte_body_st_def byte_body_def Let_def st_get_put st_set_put)

lemma fresh_store:
  assumes "inp < length h"
  shows "inp < length (h @ [z])" "length h < length (h @ [z])" "inp \<noteq> length h"
    "(h @ [z]) ! inp = h ! inp" "(h @ [z])[length h := b] = h @ [b]"
  using assms by (simp_all add: nth_append)

lemma transpose1BitAligned_st_eq:
  assumes "inp < length h"
  shows "transpose1BitAligned_st h inp W H =
     (case transpose1BitAligned (h ! inp) W H of
        Inl e \<Rightarrow> (Inl e, h)
      | Inr out \<Rightarrow> (Inr (length h), h @ [out]))"
proof (cases "W * js_shr H 3 < 0")
  case True
  then show ?thesis
    by (simp add: transpose1BitAligned_st_def transpose1BitAligned_def st_alloc_def
        buf_alloc_def Let_def)
next
  case False
  let ?z = "replicate (nat (W * js_shr H 3)) (0::byte)"
  let ?g = "h @ [?z]"
  note f = fresh_store [OF assms]
  have "for_loop 0 W (\<lambda>x. for_loop 0 H (aligned_body_st inp (js_shr W 3) (js_shr H 3) (length h) x))
          (?g[length h := ?z]) =
        ?g[length h := for_loop 0 W
          (\<lambda>x. for_loop 0 H (aligned_body (?g ! inp) (js_shr W 3) (js_shr H 3) x)) ?z]"
    by (intro for_loop_simulation aligned_body_st_put f)
  then show ?thesis
    using False
    by (simp add: transpose1BitAligned_st_def transpose1BitAligned_def st_alloc_def
        buf_alloc_def Let_def f)
qed


lemma transpose1BitGeneric_st_eq:
  assumes "inp < length h"
  shows "transpose1BitGeneric_st h inp W H =
     (case transpose1BitGeneric (h ! inp) W H of
        Inl e \<Rightarrow> (Inl e, h)
      | Inr out \<Rightarrow> (Inr (length h), h @ [out]))"
proof (cases "W * ceil_div8 H < 0")
  case True
  then show ?thesis
    by (simp add: transpose1BitGeneric_st_def transpose1BitGeneric_def st_alloc_def
        buf_alloc_def Let_def)
next
  case False
  let ?z = "replicate (nat (W * ceil_div8 H)) (0::byte)"
  let ?g = "h @ [?z]"
  note f = fresh_store [OF assms]
  have "for_loop 0 W (\<lambda>x. for_loop 0 H (generic_body_st inp (ceil_div8 W) (ceil_div8 H) (length h) x))
          (?g[length h := ?z]) =
        ?g[length h := for_loop 0 W
          (\<lambda>x. for_loop 0 H (generic_body (?g ! inp) (ceil_div8 W) (ceil_div8 H) x)) ?z]"
    by (intro for_loop_simulation generic_body_st_put f)
  then show ?thesis
    using False
    by (simp add: transpose1BitGeneric_st_def transpose1BitGeneric_def st_alloc_def
        buf_alloc_def Let_def f)
qed

lemma transpose1BitPacked_st_eq:
  assumes "inp < length h"
  shows "transpose1BitPacked_st h inp W H =
     (case transpose1BitPacked (h ! inp) W H of
        Inl e \<Rightarrow> (Inl e, h)
      | Inr out \<Rightarrow> (Inr (length h), h @ [out]))"
proof (cases "ceil_div8 (W * H) < 0")
  case True
  then show ?thesis
    by (simp add: transpose1BitPacked_st_def transpose1BitPacked_def st_alloc_def
        buf_alloc_def Let_def)
next
  case False
  let ?z = "replicate (nat (ceil_div8 (W * H))) (0::byte)"
  let ?g = "h @ [?z]"
  let ?emb = "\<lambda>s. (?g[length h := fst s], snd s)"
  let ?r = "for_loop 0 W (\<lambda>x. for_loop 0 H (packed_body (?g ! inp) (ceil_div8 W) x)) (?z, 0)"
  note f = fresh_store [OF assms]
  have step: "packed_body_st inp (ceil_div8 W) (length h) x y (?emb s) =
      ?emb (packed_body (?g ! inp) (ceil_div8 W) x y s)" for x y s
    using packed_body_st_put [of inp ?g "length h" "ceil_div8 W" x y s] f by simp
  have "for_loop 0 W (\<lambda>x. for_loop 0 H (packed_body_st inp (ceil_div8 W) (length h) x))
          (?emb (?z, 0)) = ?emb ?r"
    by (intro for_loop_simulation [where emb = ?emb] step)
  then have "for_loop 0 W (\<lambda>x. for_loop 0 H (packed_body_st inp (ceil_div8 W) (length h) x))
          (?g, 0) = (h @ [fst ?r], snd ?r)"
    by (simp add: f)
  then show ?thesis
    using False
    by (simp add: transpose1BitPacked_st_def transpose1BitPacked_def st_alloc_def
        buf_alloc_def Let_def f)
qed

lemma transpose8Bit_st_eq:
  assumes "inp < length h"
  shows "transpose8Bit_st h inp W H =
     (case transpose8Bit (h ! inp) W H of
        Inl e \<Rightarrow> (Inl e, h)
      | Inr out \<Rightarrow> (Inr (length h), h @ [out]))"
proof (cases "W * H < 0")
  case True
  then show ?thesis
    by (simp add: transpose8Bit_st_def transpose8Bit_def st_alloc_def buf_alloc_def)
next
  case False
  let ?z = "replicate (nat (W * H)) (0::byte)"
  let ?g = "h @ [?z]"
  note f = fresh_store [OF assms]
  have "for_loop 0 W (\<lambda>x. for_loop 0 H (byte_body_st inp W H (length h) x))
          (?g[length h := ?z]) =
        ?g[length h := for_loop 0 W (\<lambda>x. for_loop 0 H (byte_body (?g ! inp) W H x)) ?z]"
    by (intro for_loop_simulation byte_body_st_put f)
  then show ?thesis
    using False
    by (simp add: transpose8Bit_st_def transpose8Bit_def st_alloc_def buf_alloc_def f)
qed

text \<open>
  Claim C9. A call on a store \<open>h\<close> with the input at reference \<open>input\<close> returns what the
  routine computes from the input's bytes. When it fails the store is unchanged. When it
  succeeds the new store is the old one with the output buffer appended: the returned
  reference is new, so it is not the input's, the input and every other buffer that existed
  hold the bytes they held before, and the one new buffer is the only change.
\<close>

theorem transpose_frame:
  assumes "input < length h"
  shows "buffer_transpose_st h input W H opts =
           (case buffer_transpose (h ! input) W H opts of
              Inl e \<Rightarrow> (Inl e, h)
            | Inr out \<Rightarrow> (Inr (length h), h @ [out])) \<and>
         (\<forall>output h'. buffer_transpose_st h input W H opts = (Inr output, h') \<longrightarrow>
            output = length h \<and> output \<noteq> input \<and> h' ! input = h ! input \<and>
            take (length h) h' = h \<and> length h' = Suc (length h)) \<and>
         (\<forall>e h'. buffer_transpose_st h input W H opts = (Inl e, h') \<longrightarrow> h' = h)"
proof -
  have eq: "buffer_transpose_st h input W H opts =
           (case buffer_transpose (h ! input) W H opts of
              Inl e \<Rightarrow> (Inl e, h)
            | Inr out \<Rightarrow> (Inr (length h), h @ [out]))"
    using assms
    by (simp add: buffer_transpose_st_def buffer_transpose_def Let_def
        transpose1BitPacked_st_eq transpose1BitAligned_st_eq transpose1BitGeneric_st_eq
        transpose8Bit_st_eq)
  show ?thesis
  proof (cases "buffer_transpose (h ! input) W H opts")
    case (Inl e)
    with eq show ?thesis by simp
  next
    case (Inr out)
    with eq assms show ?thesis by (auto simp: nth_append)
  qed
qed

text \<open>
  The theorem on a store that holds the six-byte input and one other buffer: the call
  appends the transposed buffer as reference 2 and leaves references 0 and 1 as they were.
\<close>

theorem transpose_frame_witness:
  "buffer_transpose_st [[1, 2, 3, 4, 5, 6], [7]] 0 2 3 \<lparr>bpp = JsNumber 8, packed = None\<rparr> =
     (Inr 2, [[1, 2, 3, 4, 5, 6], [7], [1, 3, 5, 2, 4, 6]])"
proof -
  let ?h = "[[1, 2, 3, 4, 5, 6], [7]] :: store"
  have "buffer_transpose (?h ! 0) 2 3 \<lparr>bpp = JsNumber 8, packed = None\<rparr> = Inr [1, 3, 5, 2, 4, 6]"
    unfolding transpose_bpp8 by code_simp
  moreover have "0 < length ?h" by simp
  from transpose_frame [OF this, of 2 3 "\<lparr>bpp = JsNumber 8, packed = None\<rparr>"]
  have "buffer_transpose_st ?h 0 2 3 \<lparr>bpp = JsNumber 8, packed = None\<rparr> =
           (case buffer_transpose (?h ! 0) 2 3 \<lparr>bpp = JsNumber 8, packed = None\<rparr> of
              Inl e \<Rightarrow> (Inl e, ?h)
            | Inr out \<Rightarrow> (Inr (length ?h), ?h @ [out]))"
    by blast
  ultimately show ?thesis by simp
qed

end
